theory Spec2Isabelle
  imports Main "HOL-Library.Sublist"
begin

section \<open>The UI verification script \<^verbatim>\<open>jules-scratch/verification/verify_ui.py\<close>\<close>

text \<open>
  The script drives a headless browser through Playwright. Every awaited Playwright call
  either returns or raises; the script never looks at a returned value other than the
  browser and page handles, of which there is one each. The model therefore records each
  awaited call with its arguments, asks a driver (the browser automation layer, any
  deterministic fake of it) for the outcome, and threads the driver's state and the
  journal of calls through the control flow of \<^verbatim>\<open>main\<close>.
\<close>

subsection \<open>Calls, outcomes and the driver\<close>

text \<open>The exception classes Playwright raises; the script inspects none of them.\<close>

datatype error = Error string | TimeoutError string | AssertionError string

text \<open>
  \<^verbatim>\<open>page.locator(sel)\<close>, \<^verbatim>\<open>page.get_by_role(role, name=n)\<close> and
  \<^verbatim>\<open>page.get_by_text(t)\<close> build a locator without touching the page.
\<close>

datatype locator =
    Locator string
  | Get_by_role string string
  | Get_by_text string

text \<open>
  The awaited calls, with the arguments the source passes. \<open>Launch h\<close> is
  \<^verbatim>\<open>p.chromium.launch(headless=h)\<close>; \<open>To_be_visible l t\<close> is
  \<^verbatim>\<open>expect(l).to_be_visible(timeout=t)\<close>, \<open>t\<close> in milliseconds;
  \<open>Screenshot path full_page\<close> is \<^verbatim>\<open>page.screenshot(path=..)\<close> with the
  keyword \<^verbatim>\<open>full_page\<close> as passed, \<open>None\<close> when the call does not pass it.
  \<open>Async_playwright_enter\<close> and \<open>Async_playwright_exit\<close> are the entry and the exit of
  the \<^verbatim>\<open>async with async_playwright()\<close> block.
\<close>

datatype call =
    Async_playwright_enter
  | Launch bool
  | New_page
  | Goto string
  | Set_input_files locator string
  | Dispatch_event string string
  | Click locator
  | To_be_visible locator nat
  | Screenshot string "bool option"
  | Close
  | Async_playwright_exit

type_synonym outcome = "error + unit"

type_synonym event = "call \<times> outcome"

text \<open>A driver answers a call in its current state with an outcome and a new state.\<close>

type_synonym 's driver = "call \<Rightarrow> 's \<Rightarrow> outcome \<times> 's"

text \<open>The world of a run: the driver's state and the journal of the calls made so far.\<close>

type_synonym 's world = "'s \<times> event list"

type_synonym 's action = "'s world \<Rightarrow> outcome \<times> 's world"

text \<open>\<^verbatim>\<open>await\<close> of one Playwright call: the call is made, journalled, and its outcome returned.\<close>

definition await :: "'s driver \<Rightarrow> call \<Rightarrow> 's action" where
  "await d c w = (case d c (fst w) of (r, s') \<Rightarrow> (r, (s', snd w @ [(c, r)])))"

subsection \<open>Control flow of Python\<close>

text \<open>Two statements in sequence: an exception of the first skips the second.\<close>

definition seq :: "'s action \<Rightarrow> 's action \<Rightarrow> 's action" where
  "seq m n w = (case m w of (Inl e, w') \<Rightarrow> (Inl e, w') | (Inr u, w') \<Rightarrow> n w')"

text \<open>
  \<^verbatim>\<open>try: body finally: fin\<close>. The finally clause runs whatever the body did. When it
  raises, its exception replaces the outcome of the body; otherwise the outcome of the
  body stands (a pending exception is re-raised).
\<close>

definition try_finally :: "'s action \<Rightarrow> 's action \<Rightarrow> 's action" where
  "try_finally body fin w =
     (case body w of (r, w') \<Rightarrow>
        (case fin w' of (Inl e, w'') \<Rightarrow> (Inl e, w'') | (Inr u, w'') \<Rightarrow> (r, w'')))"

text \<open>
  \<^verbatim>\<open>async with cm: body\<close>. When entering raises, neither the body nor the exit runs.
  Otherwise the exit runs after the body on every path; the exit of
  \<^verbatim>\<open>async_playwright()\<close> returns nothing, so it suppresses no exception.
\<close>

definition async_with :: "'s action \<Rightarrow> 's action \<Rightarrow> 's action \<Rightarrow> 's action" where
  "async_with enter exit body w =
     (case enter w of (Inl e, w') \<Rightarrow> (Inl e, w') | (Inr u, w') \<Rightarrow> try_finally body exit w')"

subsection \<open>The script\<close>

text \<open>Lines 10 to 31: the body of the \<^verbatim>\<open>try\<close> statement.\<close>

definition try_body :: "'s driver \<Rightarrow> 's action" where
  "try_body d =
     seq (await d (Goto ''http://localhost:5173''))
    (seq (await d (Set_input_files (Locator ''#file-input'')
                     ''jules-scratch/verification/silent.mp3''))
    (seq (await d (Dispatch_event ''#file-input'' ''change''))
    (seq (await d (Click (Get_by_role ''button'' ''Start Processing'')))
    (seq (await d (To_be_visible (Get_by_text ''Transcription Complete'') 60000))
    (seq (await d (Screenshot ''jules-scratch/verification/results.png'' None))
    (seq (await d (Click (Get_by_role ''button'' ''raw'')))
         (await d (Screenshot ''jules-scratch/verification/raw_results.png'' None))))))))"

text \<open>Lines 4 to 34: \<^verbatim>\<open>main\<close>. The launch and \<^verbatim>\<open>new_page\<close> precede the \<^verbatim>\<open>try\<close>.\<close>

definition main :: "'s driver \<Rightarrow> 's action" where
  "main d =
     async_with (await d Async_playwright_enter) (await d Async_playwright_exit)
       (seq (await d (Launch True))
       (seq (await d New_page)
            (try_finally (try_body d) (await d Close))))"




subsection \<open>What a run shows\<close>

definition result :: "'s driver \<Rightarrow> 's \<Rightarrow> outcome" where
  "result d s = fst (main d (s, []))"

definition events :: "'s driver \<Rightarrow> 's \<Rightarrow> event list" where
  "events d s = snd (snd (main d (s, [])))"

definition calls :: "'s driver \<Rightarrow> 's \<Rightarrow> call list" where
  "calls d s = map fst (events d s)"

definition final_state :: "'s driver \<Rightarrow> 's \<Rightarrow> 's" where
  "final_state d s = fst (snd (main d (s, [])))"

text \<open>The calls of the \<^verbatim>\<open>try\<close> body in the order of the source text.\<close>

definition try_calls :: "call list" where
  "try_calls =
     [Goto ''http://localhost:5173'',
      Set_input_files (Locator ''#file-input'') ''jules-scratch/verification/silent.mp3'',
      Dispatch_event ''#file-input'' ''change'',
      Click (Get_by_role ''button'' ''Start Processing''),
      To_be_visible (Get_by_text ''Transcription Complete'') 60000,
      Screenshot ''jules-scratch/verification/results.png'' None,
      Click (Get_by_role ''button'' ''raw''),
      Screenshot ''jules-scratch/verification/raw_results.png'' None]"

text \<open>The journal entries of the calls made inside the \<^verbatim>\<open>try\<close> body.\<close>

definition body_events :: "'s driver \<Rightarrow> 's \<Rightarrow> event list" where
  "body_events d s = filter (\<lambda>ev. fst ev \<in> set try_calls) (events d s)"

text \<open>
  A screenshot call that returns has written its file; one that raises, or is never made,
  has written none.
\<close>

fun written :: "event \<Rightarrow> string list" where
  "written (Screenshot p fp, Inr u) = [p]"
| "written ev = []"

definition written_paths :: "event list \<Rightarrow> string list" where
  "written_paths evs = concat (map written evs)"


fun is_screenshot :: "call \<Rightarrow> bool" where
  "is_screenshot (Screenshot p fp) = True"
| "is_screenshot c = False"

definition screenshots :: "call list \<Rightarrow> call list" where
  "screenshots cs = filter is_screenshot cs"

text \<open>
  Playwright's \<^verbatim>\<open>page.screenshot\<close> captures the full scrollable page when
  \<^verbatim>\<open>full_page\<close> is true and the visible viewport otherwise; the keyword defaults to
  false.
\<close>

fun captures_full_page :: "call \<Rightarrow> bool" where
  "captures_full_page (Screenshot p (Some b)) = b"
| "captures_full_page (Screenshot p None) = False"
| "captures_full_page c = False"

text \<open>
  A fake driver: it raises the listed error at each listed call, returns at every other
  call, and counts the \<^verbatim>\<open>browser.close()\<close> calls it receives.
\<close>

definition fake :: "(call \<times> error) list \<Rightarrow> nat driver" where
  "fake failing c n =
     ((case map_of failing c of Some e \<Rightarrow> Inl e | None \<Rightarrow> Inr ()),
      (if c = Close then Suc n else n))"




subsection \<open>Straight-line runs\<close>

text \<open>Awaiting a list of calls one after the other, up to the first that raises.\<close>

fun await_all :: "'s driver \<Rightarrow> call list \<Rightarrow> 's action" where
  "await_all d [] w = (Inr (), w)"
| "await_all d (c # cs) w =
     (case await d c w of (Inl e, w') \<Rightarrow> (Inl e, w') | (Inr u, w') \<Rightarrow> await_all d cs w')"

text \<open>
  \<open>went cs r evs\<close>: the journal \<open>evs\<close> is that of a straight-line run of \<open>cs\<close> with
  outcome \<open>r\<close>. Either a call raised \<open>r\<close> after all calls before it had returned, and none
  after it was made, or all calls returned.
\<close>

fun went :: "call list \<Rightarrow> outcome \<Rightarrow> event list \<Rightarrow> bool" where
  "went [] r evs = (r = Inr () \<and> evs = [])"
| "went (c # cs) r evs =
     (isl r \<and> evs = [(c, r)] \<or> (\<exists>evs'. evs = (c, Inr ()) # evs' \<and> went cs r evs'))"

text \<open>The outcome of a block followed by a cleanup with outcome \<open>rf\<close>.\<close>

definition cleanup_outcome :: "outcome \<Rightarrow> outcome \<Rightarrow> outcome" where
  "cleanup_outcome r rf = (case rf of Inl e \<Rightarrow> Inl e | Inr u \<Rightarrow> r)"

section \<open>The shape of every run\<close>

lemma await_all_single: "await d c = await_all d [c]"
  by (rule ext) (auto split: prod.splits sum.splits)

lemma seq_await_all: "seq (await_all d [c]) (await_all d cs) = await_all d (c # cs)"
  by (rule ext) (auto simp: seq_def split: prod.splits sum.splits)

lemma try_body_await_all: "try_body d = await_all d try_calls"
  unfolding try_body_def try_calls_def
  by (simp only: await_all_single seq_await_all)

lemma await_journal: "await d c w = (r, w') \<Longrightarrow> snd w' = snd w @ [(c, r)]"
  by (auto simp: await_def split: prod.splits)

lemma await_eq: "\<exists>r s'. await d c w = (r, (s', snd w @ [(c, r)]))"
  by (simp add: await_def split: prod.splits)

lemma await_all_journal:
  "\<exists>evs. snd (snd (await_all d cs w)) = snd w @ evs \<and> went cs (fst (await_all d cs w)) evs"
proof (induction cs arbitrary: w)
  case Nil
  show ?case by simp
next
  case (Cons c cs)
  obtain r w' where a: "await d c w = (r, w')" by (cases "await d c w")
  have j: "snd w' = snd w @ [(c, r)]" using a by (rule await_journal)
  show ?case
  proof (cases r)
    case (Inl e)
    then show ?thesis using a j by simp
  next
    case (Inr u)
    from Cons.IH [of w'] obtain evs where
      "snd (snd (await_all d cs w')) = snd w' @ evs" "went cs (fst (await_all d cs w')) evs"
      by blast
    then have "snd (snd (await_all d (c # cs) w)) = snd w @ ((c, Inr ()) # evs)"
      and "went (c # cs) (fst (await_all d (c # cs) w)) ((c, Inr ()) # evs)"
      using a j Inr by simp_all
    then show ?thesis by blast
  qed
qed

lemma try_body_journal:
  "\<exists>evs. snd (snd (try_body d w)) = snd w @ evs \<and> went try_calls (fst (try_body d w)) evs"
  unfolding try_body_await_all by (rule await_all_journal)

lemma try_finally_journal:
  assumes "body w = (rb, wb)" and "await d c wb = (rc, wc)"
  shows "try_finally body (await d c) w = (cleanup_outcome rb rc, wc)"
  using assms by (simp add: try_finally_def cleanup_outcome_def split: sum.splits)

lemma main_journal:
  "(\<exists>e. events d s = [(Async_playwright_enter, Inl e)] \<and> result d s = Inl e) \<or>
   (\<exists>e rx. events d s = [(Async_playwright_enter, Inr ()), (Launch True, Inl e),
                          (Async_playwright_exit, rx)] \<and>
            result d s = cleanup_outcome (Inl e) rx) \<or>
   (\<exists>e rx. events d s = [(Async_playwright_enter, Inr ()), (Launch True, Inr ()),
                          (New_page, Inl e), (Async_playwright_exit, rx)] \<and>
            result d s = cleanup_outcome (Inl e) rx) \<or>
   (\<exists>rb evs rc rx.
       events d s = [(Async_playwright_enter, Inr ()), (Launch True, Inr ()), (New_page, Inr ())]
                      @ evs @ [(Close, rc), (Async_playwright_exit, rx)] \<and>
       went try_calls rb evs \<and>
       result d s = cleanup_outcome (cleanup_outcome rb rc) rx)"
proof -
  let ?E = Async_playwright_enter and ?X = Async_playwright_exit
  obtain r1 s1 where a1: "await d ?E (s, []) = (r1, (s1, [(?E, r1)]))"
    using await_eq [of d ?E "(s, [])"] by auto
  show ?thesis
  proof (cases r1)
    case (Inl e)
    then show ?thesis using a1
      by (simp add: events_def result_def main_def async_with_def)
  next
    case r1: (Inr u1)
    let ?w1 = "(s1, [(?E, Inr ())])"
    have m: "main d (s, []) =
        try_finally (seq (await d (Launch True))
          (seq (await d New_page) (try_finally (try_body d) (await d Close)))) (await d ?X) ?w1"
      using a1 r1 by (simp add: main_def async_with_def)
    obtain r2 s2 where a2: "await d (Launch True) ?w1 = (r2, (s2, [(?E, Inr ()), (Launch True, r2)]))"
      using await_eq [of d "Launch True" ?w1] by auto
    show ?thesis
    proof (cases r2)
      case (Inl e)
      let ?w2 = "(s2, [(?E, Inr ()), (Launch True, Inl e)])"
      obtain rx sx where ax: "await d ?X ?w2 = (rx, (sx, snd ?w2 @ [(?X, rx)]))"
        using await_eq [of d ?X ?w2] by auto
      have "main d (s, []) = (cleanup_outcome (Inl e) rx, (sx, snd ?w2 @ [(?X, rx)]))"
        unfolding m using a2 Inl ax by (intro try_finally_journal) (simp_all add: seq_def)
      then show ?thesis by (simp add: events_def result_def)
    next
      case r2: (Inr u2)
      let ?w2 = "(s2, [(?E, Inr ()), (Launch True, Inr ())])"
      obtain r3 s3 where a3: "await d New_page ?w2 = (r3, (s3, snd ?w2 @ [(New_page, r3)]))"
        using await_eq [of d New_page ?w2] by auto
      show ?thesis
      proof (cases r3)
        case (Inl e)
        let ?w3 = "(s3, snd ?w2 @ [(New_page, Inl e)])"
        obtain rx sx where ax: "await d ?X ?w3 = (rx, (sx, snd ?w3 @ [(?X, rx)]))"
          using await_eq [of d ?X ?w3] by auto
        have "main d (s, []) = (cleanup_outcome (Inl e) rx, (sx, snd ?w3 @ [(?X, rx)]))"
          unfolding m using a2 r2 a3 Inl ax by (intro try_finally_journal) (simp_all add: seq_def)
        then show ?thesis by (simp add: events_def result_def)
      next
        case r3: (Inr u3)
        let ?w3 = "(s3, snd ?w2 @ [(New_page, Inr ())])"
        obtain rb wb where b: "try_body d ?w3 = (rb, wb)" by (cases "try_body d ?w3")
        obtain evs where evs: "snd wb = snd ?w3 @ evs" "went try_calls rb evs"
          using try_body_journal [of d ?w3] b by auto
        obtain rc sc where ac: "await d Close wb = (rc, (sc, snd wb @ [(Close, rc)]))"
          using await_eq [of d Close wb] by auto
        let ?wc = "(sc, snd wb @ [(Close, rc)])"
        obtain rx sx where ax: "await d ?X ?wc = (rx, (sx, snd ?wc @ [(?X, rx)]))"
          using await_eq [of d ?X ?wc] by auto
        have t: "try_finally (try_body d) (await d Close) ?w3 = (cleanup_outcome rb rc, ?wc)"
          using b ac by (rule try_finally_journal)
        have "main d (s, []) =
            (cleanup_outcome (cleanup_outcome rb rc) rx, (sx, snd ?wc @ [(?X, rx)]))"
          unfolding m using a2 r2 a3 r3 t ax by (intro try_finally_journal) (simp_all add: seq_def)
        then show ?thesis using evs by (auto simp: events_def result_def)
      qed
    qed
  qed
qed

subsection \<open>Cleanup outcomes\<close>

lemma isl_cleanup_outcome [simp]: "isl (cleanup_outcome r rf) = (isl r \<or> isl rf)"
  by (cases rf) (simp_all add: cleanup_outcome_def)

lemma cleanup_outcome_Inr [simp]: "cleanup_outcome r (Inr u) = r"
  by (simp add: cleanup_outcome_def)

lemma cleanup_outcome_Inl [simp]: "cleanup_outcome r (Inl e) = Inl e"
  by (simp add: cleanup_outcome_def)

lemma cleanup_outcome_eq_Inr [simp]:
  "cleanup_outcome r rf = Inr u \<longleftrightarrow> r = Inr u \<and> rf = Inr ()"
  by (cases rf) auto

lemma Inr_eq_cleanup_outcome [simp]:
  "Inr u = cleanup_outcome r rf \<longleftrightarrow> r = Inr u \<and> rf = Inr ()"
  by (cases rf) auto

subsection \<open>Straight-line journals\<close>

lemma went_calls_prefix: "went cs r evs \<Longrightarrow> prefix (map fst evs) cs"
  by (induction cs arbitrary: evs) auto

lemma went_calls_subset: "went cs r evs \<Longrightarrow> (c, x) \<in> set evs \<Longrightarrow> c \<in> set cs"
  by (induction cs arbitrary: evs) fastforce+

lemma went_butlast_returned:
  "went cs r evs \<Longrightarrow> list_all (\<lambda>ev. snd ev = Inr ()) (butlast evs)"
  by (induction cs arbitrary: evs) auto

lemma went_returned: "went cs (Inr u) evs \<Longrightarrow> evs = map (\<lambda>c. (c, Inr ())) cs"
  by (induction cs arbitrary: evs) auto

lemma went_raised: "went cs r evs \<Longrightarrow> (c, Inl e) \<in> set evs \<Longrightarrow> r = Inl e"
  by (induction cs arbitrary: evs) auto


subsection \<open>Runs that reach the try statement\<close>

lemma in_try:
  assumes "(c, r) \<in> set (events d s)"
    and "c \<notin> {Async_playwright_enter, Launch True, Async_playwright_exit}"
    and "c = New_page \<Longrightarrow> r = Inr ()"
  obtains rb evs rc rx where
    "events d s = [(Async_playwright_enter, Inr ()), (Launch True, Inr ()), (New_page, Inr ())]
                      @ evs @ [(Close, rc), (Async_playwright_exit, rx)]"
    and "went try_calls rb evs"
    and "result d s = cleanup_outcome (cleanup_outcome rb rc) rx"
  using main_journal [of d s] assms by auto

lemma not_in_try_calls:
  "Async_playwright_enter \<notin> set try_calls" "Launch h \<notin> set try_calls"
  "New_page \<notin> set try_calls" "Close \<notin> set try_calls" "Async_playwright_exit \<notin> set try_calls"
  by (simp_all add: try_calls_def)

lemma returned_journal:
  assumes "result d s = Inr ()"
  shows "events d s =
     map (\<lambda>c. (c, Inr ()))
       ([Async_playwright_enter, Launch True, New_page] @ try_calls @
        [Close, Async_playwright_exit])"
proof -
  from main_journal [of d s] assms obtain evs where
    "events d s = [(Async_playwright_enter, Inr ()), (Launch True, Inr ()), (New_page, Inr ())]
                      @ evs @ [(Close, Inr ()), (Async_playwright_exit, Inr ())]"
    and "went try_calls (Inr ()) evs"
    by auto
  then show ?thesis using went_returned [of try_calls "()" evs] by simp
qed

lemma calls_of_script:
  "set (calls d s) \<subseteq>
     {Async_playwright_enter, Launch True, New_page, Close, Async_playwright_exit} \<union>
     set try_calls"
  using main_journal [of d s] unfolding calls_def
  by (auto dest: went_calls_subset)

lemma body_events_in_try:
  assumes "events d s = [(Async_playwright_enter, Inr ()), (Launch True, Inr ()), (New_page, Inr ())]
                      @ evs @ [(Close, rc), (Async_playwright_exit, rx)]"
    and "went try_calls rb evs"
  shows "body_events d s = evs"
proof -
  have "\<forall>ev \<in> set evs. fst ev \<in> set try_calls"
    using went_calls_subset [OF assms(2)] by auto
  then have "filter (\<lambda>ev. fst ev \<in> set try_calls) evs = evs"
    by (simp only: filter_True)
  then show ?thesis unfolding body_events_def assms(1)
    by (simp add: not_in_try_calls)
qed

lemma wait_raised:
  assumes "went try_calls rb evs" and "(To_be_visible l t, Inl e) \<in> set evs"
  shows "rb = Inl e \<and> l = Get_by_text ''Transcription Complete'' \<and> t = 60000 \<and>
    evs = map (\<lambda>c. (c, Inr ())) (take 4 try_calls) @
            [(To_be_visible (Get_by_text ''Transcription Complete'') 60000, Inl e)]"
  using assms unfolding try_calls_def by auto

lemma goto_raised:
  assumes "went try_calls rb evs" and "(Goto u, Inl e) \<in> set evs"
  shows "rb = Inl e \<and> u = ''http://localhost:5173'' \<and> evs = [(Goto ''http://localhost:5173'', Inl e)]"
  using assms unfolding try_calls_def by auto



lemma second_part_reached:
  assumes "went try_calls rb evs" and "(c, r) \<in> set evs"
    and "c = Click (Get_by_role ''button'' ''raw'') \<or>
         c = Screenshot ''jules-scratch/verification/raw_results.png'' fp"
  shows "\<exists>rest. evs = map (\<lambda>c. (c, Inr ())) (take 6 try_calls) @ rest \<and>
           (rest = [(Click (Get_by_role ''button'' ''raw''), r)] \<or>
            rest = [(Click (Get_by_role ''button'' ''raw''), Inr ()), 
                    (Screenshot ''jules-scratch/verification/raw_results.png'' None, rb)])"
  using assms unfolding try_calls_def by auto

subsection \<open>The journal is determined by the outcomes\<close>



subsection \<open>Evaluating a run against the fake driver\<close>

lemmas run_defs = events_def result_def calls_def final_state_def main_def async_with_def
  try_finally_def seq_def try_body_def await_def fake_def

section \<open>The claims\<close>

text \<open>
  C1, as stated: in every run, normal or failing at any step, \<^verbatim>\<open>browser.close()\<close> is
  invoked exactly once. This fails: \<^verbatim>\<open>p.chromium.launch\<close> and
  \<^verbatim>\<open>browser.new_page\<close> are awaited before the \<^verbatim>\<open>try\<close> statement, so when
  either raises the \<^verbatim>\<open>finally\<close> clause is never reached and close is not invoked
  at all; in the second case the browser had been launched.
\<close>

theorem close_not_invoked_counterexample:
  "(Launch True, Inr ()) \<in> set (events (fake [(New_page, Error ''new_page'')]) 0) \<and>
   result (fake [(New_page, Error ''new_page'')]) 0 = Inl (Error ''new_page'') \<and>
   count_list (calls (fake [(New_page, Error ''new_page'')]) 0) Close = 0 \<and>
   final_state (fake [(New_page, Error ''new_page'')]) 0 = 0 \<and>
   result (fake [(Launch True, Error ''launch'')]) 0 = Inl (Error ''launch'') \<and>
   count_list (calls (fake [(Launch True, Error ''launch'')]) 0) Close = 0"
  by (simp add: run_defs)

text \<open>
  C1, amended: in every run in which the browser was launched and the page was opened, so
  that the \<^verbatim>\<open>try\<close> statement is entered, \<^verbatim>\<open>browser.close()\<close> is invoked exactly
  once, whether the body of the \<^verbatim>\<open>try\<close> returns or any of its steps raises; it is
  the last call before the exit of the \<^verbatim>\<open>async with\<close> block, which ends the run.
\<close>

theorem close_exactly_once:
  assumes "(New_page, Inr ()) \<in> set (events d s)"
  shows "count_list (calls d s) Close = 1 \<and>
         last (butlast (calls d s)) = Close \<and> last (calls d s) = Async_playwright_exit"
proof -
  from assms obtain rb evs rc rx where
    ev: "events d s = [(Async_playwright_enter, Inr ()), (Launch True, Inr ()), (New_page, Inr ())]
                      @ evs @ [(Close, rc), (Async_playwright_exit, rx)]"
    and w: "went try_calls rb evs"
    by (rule in_try) simp_all
  have "Close \<notin> set (map fst evs)"
    using went_calls_subset [OF w] not_in_try_calls(4) by auto
  then have "count_list (map fst evs) Close = 0"
    by (simp add: count_list_0_iff)
  then show ?thesis unfolding calls_def ev by (simp add: butlast_append)
qed

theorem close_exactly_once_witness:
  "(New_page, Inr ()) \<in>
     set (events (fake [(Goto ''http://localhost:5173'', Error ''refused'')]) 0) \<and>
   count_list (calls (fake [(Goto ''http://localhost:5173'', Error ''refused'')]) 0) Close = 1 \<and>
   final_state (fake [(Goto ''http://localhost:5173'', Error ''refused'')]) 0 = 1"
  using close_exactly_once [of "fake [(Goto ''http://localhost:5173'', Error ''refused'')]" 0]
  by (simp add: run_defs)

text \<open>
  C2: the calls of the \<^verbatim>\<open>try\<close> body are made in the order of the source text,
  navigate, attach the file, dispatch the change event, click ``Start Processing'', wait
  for ``Transcription Complete'', first screenshot, click ``raw'', second screenshot. The
  calls made in a run are an initial segment of that list, none out of order, and each
  call but the last made has returned before its successor was made.
\<close>

theorem program_order:
  "prefix (map fst (body_events d s)) try_calls \<and>
   list_all (\<lambda>ev. snd ev = Inr ()) (butlast (body_events d s))"
proof -
  consider
      (outside) "body_events d s = []"
    | (inside) rb where "went try_calls rb (body_events d s)"
    using main_journal [of d s]
  proof (elim disjE exE conjE)
    fix rb evs rc rx
    assume "events d s = [(Async_playwright_enter, Inr ()), (Launch True, Inr ()), (New_page, Inr ())]
                      @ evs @ [(Close, rc), (Async_playwright_exit, rx)]"
      and "went try_calls rb evs"
      and "\<And>rb. went try_calls rb (body_events d s) \<Longrightarrow> thesis"
    then show thesis using body_events_in_try by metis
  qed (simp_all add: body_events_def not_in_try_calls)
  then show ?thesis
  proof cases
    case outside
    then show ?thesis by simp
  next
    case inside
    then show ?thesis using went_calls_prefix went_butlast_returned by blast
  qed
qed

theorem program_order_witness:
  "map fst (body_events (fake [(Click (Get_by_role ''button'' ''Start Processing''), Error ''no button'')]) 0)
     = take 4 try_calls \<and>
   prefix (take 4 try_calls) try_calls \<and>
   map snd (body_events (fake [(Click (Get_by_role ''button'' ''Start Processing''), Error ''no button'')]) 0)
     = [Inr (), Inr (), Inr (), Inl (Error ''no button'')]"
  using program_order [of "fake [(Click (Get_by_role ''button'' ''Start Processing''), Error ''no button'')]" 0]
  by (simp add: run_defs body_events_def try_calls_def)

text \<open>
  C3: the wait for the text ``Transcription Complete'' is made with a bound of 60000
  milliseconds, after the click on ``Start Processing'' has returned. When that wait
  raises, the run fails, no screenshot call is made and no screenshot file is written;
  the error that leaves the script is the one the wait raised, provided the cleanup calls
  return.
\<close>

theorem wait_timeout:
  assumes "(To_be_visible l t, Inl e) \<in> set (events d s)"
  shows "l = Get_by_text ''Transcription Complete'' \<and> t = 60000 \<and>
         (Click (Get_by_role ''button'' ''Start Processing''), Inr ()) \<in> set (events d s) \<and>
         isl (result d s) \<and>
         screenshots (calls d s) = [] \<and> written_paths (events d s) = [] \<and>
         ((Close, Inr ()) \<in> set (events d s) \<and>
          (Async_playwright_exit, Inr ()) \<in> set (events d s) \<longrightarrow> result d s = Inl e)"
proof -
  from assms obtain rb evs rc rx where
    ev: "events d s = [(Async_playwright_enter, Inr ()), (Launch True, Inr ()), (New_page, Inr ())]
                      @ evs @ [(Close, rc), (Async_playwright_exit, rx)]"
    and w: "went try_calls rb evs"
    and r: "result d s = cleanup_outcome (cleanup_outcome rb rc) rx"
    by (rule in_try) simp_all
  have "(To_be_visible l t, Inl e) \<in> set evs" using assms ev by simp
  with w have f: "rb = Inl e" "l = Get_by_text ''Transcription Complete''" "t = 60000"
    "evs = map (\<lambda>c. (c, Inr ())) (take 4 try_calls) @
       [(To_be_visible (Get_by_text ''Transcription Complete'') 60000, Inl e)]"
    using wait_raised by blast+
  show ?thesis unfolding calls_def ev r f
    by (auto simp: try_calls_def screenshots_def written_paths_def)
qed

theorem wait_timeout_witness:
  "(To_be_visible (Get_by_text ''Transcription Complete'') 60000, Inl (TimeoutError ''60000ms exceeded''))
     \<in> set (events (fake [(To_be_visible (Get_by_text ''Transcription Complete'') 60000,
                            TimeoutError ''60000ms exceeded'')]) 0) \<and>
   result (fake [(To_be_visible (Get_by_text ''Transcription Complete'') 60000,
                  TimeoutError ''60000ms exceeded'')]) 0 = Inl (TimeoutError ''60000ms exceeded'') \<and>
   written_paths (events (fake [(To_be_visible (Get_by_text ''Transcription Complete'') 60000,
                  TimeoutError ''60000ms exceeded'')]) 0) = []"
  using wait_timeout [of "Get_by_text ''Transcription Complete''" 60000
      "TimeoutError ''60000ms exceeded''"
      "fake [(To_be_visible (Get_by_text ''Transcription Complete'') 60000,
              TimeoutError ''60000ms exceeded'')]" 0]
  by (simp add: run_defs written_paths_def)

text \<open>
  C4, as stated: both screenshot calls capture the full scrollable page. This fails: both
  calls pass the path only, the keyword \<^verbatim>\<open>full_page\<close> is absent from the script, and
  Playwright's default captures the visible viewport.
\<close>

theorem not_full_page_counterexample:
  "screenshots (calls (fake []) 0) =
     [Screenshot ''jules-scratch/verification/results.png'' None,
      Screenshot ''jules-scratch/verification/raw_results.png'' None] \<and>
   \<not> captures_full_page (Screenshot ''jules-scratch/verification/results.png'' None) \<and>
   \<not> captures_full_page (Screenshot ''jules-scratch/verification/raw_results.png'' None) \<and>
   \<not> list_all captures_full_page (screenshots (calls (fake []) 0))"
  by (simp add: run_defs screenshots_def)

text \<open>
  C4, amended: every screenshot call of a run is made with one of the two fixed paths and
  with no \<^verbatim>\<open>full_page\<close> keyword, so it captures the visible viewport and not the
  full scrollable page.
\<close>

theorem screenshots_fixed_paths:
  assumes "c \<in> set (screenshots (calls d s))"
  shows "(c = Screenshot ''jules-scratch/verification/results.png'' None \<or>
          c = Screenshot ''jules-scratch/verification/raw_results.png'' None) \<and>
         \<not> captures_full_page c"
proof -
  from assms have "c \<in> set (calls d s)" "is_screenshot c"
    by (simp_all add: screenshots_def)
  then have "c \<in> set try_calls" "is_screenshot c"
    using calls_of_script [of d s] by auto
  then show ?thesis by (auto simp: try_calls_def)
qed

theorem screenshots_fixed_paths_witness:
  "Screenshot ''jules-scratch/verification/raw_results.png'' None
     \<in> set (screenshots (calls (fake []) 0)) \<and>
   \<not> captures_full_page (Screenshot ''jules-scratch/verification/raw_results.png'' None)"
  using screenshots_fixed_paths
    [of "Screenshot ''jules-scratch/verification/raw_results.png'' None" "fake []" 0]
  by (simp add: run_defs screenshots_def)

text \<open>
  C5: when the navigation to the target page raises, the run fails, the file upload is
  never called, no screenshot call is made and no screenshot file is written. The calls of
  such a run are the entry of the \<^verbatim>\<open>async with\<close> block, the launch, the new page, the
  navigation, the close and the exit of the block.
\<close>

theorem navigation_failure:
  assumes "(Goto u, Inl e) \<in> set (events d s)"
  shows "u = ''http://localhost:5173'' \<and> isl (result d s) \<and>
         calls d s = [Async_playwright_enter, Launch True, New_page,
                      Goto ''http://localhost:5173'', Close, Async_playwright_exit] \<and>
         (\<forall>l f. Set_input_files l f \<notin> set (calls d s)) \<and>
         screenshots (calls d s) = [] \<and> written_paths (events d s) = []"
proof -
  from assms obtain rb evs rc rx where
    ev: "events d s = [(Async_playwright_enter, Inr ()), (Launch True, Inr ()), (New_page, Inr ())]
                      @ evs @ [(Close, rc), (Async_playwright_exit, rx)]"
    and w: "went try_calls rb evs"
    and r: "result d s = cleanup_outcome (cleanup_outcome rb rc) rx"
    by (rule in_try) simp_all
  have "(Goto u, Inl e) \<in> set evs" using assms ev by simp
  with w have f: "rb = Inl e" "u = ''http://localhost:5173''"
    "evs = [(Goto ''http://localhost:5173'', Inl e)]"
    using goto_raised by blast+
  show ?thesis unfolding calls_def ev r f
    by (simp add: screenshots_def written_paths_def)
qed

theorem navigation_failure_witness:
  "(Goto ''http://localhost:5173'', Inl (Error ''net::ERR_CONNECTION_REFUSED''))
     \<in> set (events (fake [(Goto ''http://localhost:5173'', Error ''net::ERR_CONNECTION_REFUSED'')]) 0) \<and>
   isl (result (fake [(Goto ''http://localhost:5173'', Error ''net::ERR_CONNECTION_REFUSED'')]) 0) \<and>
   written_paths (events (fake [(Goto ''http://localhost:5173'', Error ''net::ERR_CONNECTION_REFUSED'')]) 0) = []"
  using navigation_failure [of "''http://localhost:5173''" "Error ''net::ERR_CONNECTION_REFUSED''"
    "fake [(Goto ''http://localhost:5173'', Error ''net::ERR_CONNECTION_REFUSED'')]" 0]
  by (simp add: run_defs written_paths_def)

text \<open>
  C6, as stated: for every failing step, the error of that step leaves the script
  unmodified once the close has run. This fails when the cleanup raises as well: the
  script has no means to keep the first error, and the exception of the
  \<^verbatim>\<open>finally\<close> clause replaces it.
\<close>

theorem cleanup_error_replaces_counterexample:
  "(Goto ''http://localhost:5173'', Inl (Error ''refused''))
     \<in> set (events (fake [(Goto ''http://localhost:5173'', Error ''refused''),
                            (Close, Error ''closing'')]) 0) \<and>
   (Close, Inl (Error ''closing''))
     \<in> set (events (fake [(Goto ''http://localhost:5173'', Error ''refused''),
                            (Close, Error ''closing'')]) 0) \<and>
   result (fake [(Goto ''http://localhost:5173'', Error ''refused''),
                 (Close, Error ''closing'')]) 0 = Inl (Error ''closing'') \<and>
   result (fake [(Goto ''http://localhost:5173'', Error ''refused''),
                 (Close, Error ''closing'')]) 0 \<noteq> Inl (Error ''refused'')"
  by (simp add: run_defs)

text \<open>
  C6, amended: for every failing step of the \<^verbatim>\<open>try\<close> body, the error is neither
  caught nor translated: \<^verbatim>\<open>browser.close()\<close> is called, the run fails, and when the
  close and the exit of the \<^verbatim>\<open>async with\<close> block return, the error that leaves the
  script is the one the step raised.
\<close>

theorem error_propagates:
  assumes "(c, Inl e) \<in> set (events d s)" and "c \<in> set try_calls"
  shows "Close \<in> set (calls d s) \<and> isl (result d s) \<and>
         ((Close, Inr ()) \<in> set (events d s) \<and>
          (Async_playwright_exit, Inr ()) \<in> set (events d s) \<longrightarrow> result d s = Inl e)"
proof -
  have n: "c \<notin> {Async_playwright_enter, Launch True, Async_playwright_exit}" "c \<noteq> New_page"
    "c \<noteq> Close"
    using assms(2) not_in_try_calls by auto
  from assms(1) n(1) obtain rb evs rc rx where
    ev: "events d s = [(Async_playwright_enter, Inr ()), (Launch True, Inr ()), (New_page, Inr ())]
                      @ evs @ [(Close, rc), (Async_playwright_exit, rx)]"
    and w: "went try_calls rb evs"
    and r: "result d s = cleanup_outcome (cleanup_outcome rb rc) rx"
    by (rule in_try) (use n(2) in simp_all)
  have "(c, Inl e) \<in> set evs" using assms(1) n ev by auto
  with w have rb: "rb = Inl e" by (rule went_raised)
  have "(Close, x) \<notin> set evs" "(Async_playwright_exit, x) \<notin> set evs" for x
    using went_calls_subset [OF w] not_in_try_calls by blast+
  then show ?thesis unfolding calls_def ev r rb by auto
qed

theorem error_propagates_witness:
  "(Click (Get_by_role ''button'' ''raw''), Inl (Error ''no tab''))
     \<in> set (events (fake [(Click (Get_by_role ''button'' ''raw''), Error ''no tab'')]) 0) \<and>
   Click (Get_by_role ''button'' ''raw'') \<in> set try_calls \<and>
   (Close, Inr ()) \<in> set (events (fake [(Click (Get_by_role ''button'' ''raw''), Error ''no tab'')]) 0) \<and>
   result (fake [(Click (Get_by_role ''button'' ''raw''), Error ''no tab'')]) 0 = Inl (Error ''no tab'')"
  using error_propagates [of "Click (Get_by_role ''button'' ''raw'')" "Error ''no tab''"
    "fake [(Click (Get_by_role ''button'' ''raw''), Error ''no tab'')]" 0]
  by (simp add: run_defs try_calls_def)

text \<open>
  C7: a run that succeeds has navigated to \<^verbatim>\<open>http://localhost:5173\<close>, uploaded
  \<^verbatim>\<open>silent.mp3\<close>, and written exactly two files, \<^verbatim>\<open>results.png\<close> after the text
  ``Transcription Complete'' was visible and \<^verbatim>\<open>raw_results.png\<close> after the click on
  the ``raw'' tab, in that order. Its journal is the whole script, every call returned.
\<close>

theorem successful_run:
  assumes "result d s = Inr ()"
  shows "events d s =
     [(Async_playwright_enter, Inr ()),
      (Launch True, Inr ()),
      (New_page, Inr ()),
      (Goto ''http://localhost:5173'', Inr ()),
      (Set_input_files (Locator ''#file-input'') ''jules-scratch/verification/silent.mp3'', Inr ()),
      (Dispatch_event ''#file-input'' ''change'', Inr ()),
      (Click (Get_by_role ''button'' ''Start Processing''), Inr ()),
      (To_be_visible (Get_by_text ''Transcription Complete'') 60000, Inr ()),
      (Screenshot ''jules-scratch/verification/results.png'' None, Inr ()),
      (Click (Get_by_role ''button'' ''raw''), Inr ()),
      (Screenshot ''jules-scratch/verification/raw_results.png'' None, Inr ()),
      (Close, Inr ()),
      (Async_playwright_exit, Inr ())] \<and>
    written_paths (events d s) =
     [''jules-scratch/verification/results.png'',
      ''jules-scratch/verification/raw_results.png'']"
  unfolding returned_journal [OF assms]
  by (simp add: try_calls_def written_paths_def)

theorem successful_run_witness:
  "result (fake []) 0 = Inr () \<and>
   written_paths (events (fake []) 0) =
     [''jules-scratch/verification/results.png'',
      ''jules-scratch/verification/raw_results.png''] \<and>
   final_state (fake []) 0 = 1"
  using successful_run [of "fake []" 0]
  by (simp add: run_defs written_paths_def)






text \<open>
  C10: the click on the ``raw'' tab and the second screenshot are never reached unless
  the first screenshot has returned earlier in the same run: wherever one of them stands
  in the journal, the successful first screenshot stands before it.
\<close>

theorem second_needs_first:
  assumes "events d s = pre @ (c, r) # post"
    and "c = Click (Get_by_role ''button'' ''raw'') \<or>
         c = Screenshot ''jules-scratch/verification/raw_results.png'' fp"
  shows "(Screenshot ''jules-scratch/verification/results.png'' None, Inr ()) \<in> set pre"
proof -
  have m: "(c, r) \<in> set (events d s)" using assms(1) by simp
  from m obtain rb evs rc rx where
    ev: "events d s = [(Async_playwright_enter, Inr ()), (Launch True, Inr ()), (New_page, Inr ())]
                      @ evs @ [(Close, rc), (Async_playwright_exit, rx)]"
    and w: "went try_calls rb evs"
    by (rule in_try) (use assms(2) in auto)
  have "(c, r) \<in> set evs" using m assms(2) ev by auto
  from second_part_reached [OF w this assms(2)] obtain rest where
    evs: "evs = map (\<lambda>c. (c, Inr ())) (take 6 try_calls) @ rest"
    and rest: "rest = [(Click (Get_by_role ''button'' ''raw''), r)] \<or>
            rest = [(Click (Get_by_role ''button'' ''raw''), Inr ()), 
                    (Screenshot ''jules-scratch/verification/raw_results.png'' None, rb)]"
    by blast
  from rest show ?thesis
  proof
    assume "rest = [(Click (Get_by_role ''button'' ''raw''), r)]"
    then show ?thesis using assms ev evs
      by (auto simp: try_calls_def Cons_eq_append_conv)
  next
    assume "rest = [(Click (Get_by_role ''button'' ''raw''), Inr ()), 
                    (Screenshot ''jules-scratch/verification/raw_results.png'' None, rb)]"
    then show ?thesis using assms ev evs
      by (auto simp: try_calls_def Cons_eq_append_conv)
  qed
qed

theorem second_needs_first_witness:
  "events (fake [(Screenshot ''jules-scratch/verification/raw_results.png'' None, Error ''disk full'')]) 0
     = take 10 (events (fake [(Screenshot ''jules-scratch/verification/raw_results.png'' None, Error ''disk full'')]) 0)
       @ (Screenshot ''jules-scratch/verification/raw_results.png'' None, Inl (Error ''disk full''))
       # [(Close, Inr ()), (Async_playwright_exit, Inr ())] \<and>
   (Screenshot ''jules-scratch/verification/results.png'' None, Inr ())
     \<in> set (take 10 (events (fake [(Screenshot ''jules-scratch/verification/raw_results.png'' None, Error ''disk full'')]) 0))"
  using second_needs_first
    [of "fake [(Screenshot ''jules-scratch/verification/raw_results.png'' None, Error ''disk full'')]" 0
        "take 10 (events (fake [(Screenshot ''jules-scratch/verification/raw_results.png'' None, Error ''disk full'')]) 0)"
        "Screenshot ''jules-scratch/verification/raw_results.png'' None" "Inl (Error ''disk full'')"
        "[(Close, Inr ()), (Async_playwright_exit, Inr ())]" None]
  by (simp add: run_defs)

end
